theory Spec2Isabelle
  imports
    Main
    "HOL-Library.Char_ord"
    "HOL-Library.List_Lexorder"
    "HOL-Library.Product_Lexorder"
begin

section \<open>HTTP reply test server: the model\<close>

text \<open>
  A shallow embedding of \<^verbatim>\<open>HTTP-reply-test-server.py\<close>. Payloads and names are byte
  strings. The file system and the port are an \<open>env\<close> record holding what the script
  observes of them; it does not change while the script runs. What the listening socket
  delivers is a list of \<open>accept_result\<close>s, one per call of \<^verbatim>\<open>accept()\<close>; a loop that has
  used up the list is \<open>Blocked\<close> in \<^verbatim>\<open>accept()\<close>. Every function returns the trace of
  what it did, the accept results it has not used, and how it ended.
\<close>

type_synonym bytes = string

subsection \<open>Python's \<^verbatim>\<open>int(str)\<close> and \<^verbatim>\<open>os.path.basename\<close>\<close>

text \<open>
  The builtin \<^verbatim>\<open>int(s)\<close> in base 10 on an ASCII string: whitespace around the literal is
  stripped, one sign is allowed, then decimal digits with single underscores between
  digits. \<open>None\<close> is \<^verbatim>\<open>ValueError\<close>. Bytes above 0x7F (Unicode digits and spaces) and the
  interpreter's limit on the number of digits are not modelled.
\<close>

definition is_space :: "char \<Rightarrow> bool" where
  "is_space c = (c \<in> set [CHR 0x09, CHR 0x0A, CHR 0x0B, CHR 0x0C, CHR 0x0D, CHR 0x20])"

definition strip :: "string \<Rightarrow> string" where
  "strip s = rev (dropWhile is_space (rev (dropWhile is_space s)))"

definition is_digit :: "char \<Rightarrow> bool" where
  "is_digit c = (CHR ''0'' \<le> c \<and> c \<le> CHR ''9'')"

definition digit_value :: "char \<Rightarrow> nat" where
  "digit_value c = of_char c - 48"

fun py_digits :: "nat \<Rightarrow> string \<Rightarrow> nat option" where
  "py_digits acc [] = Some acc"
| "py_digits acc [c] = (if is_digit c then Some (10 * acc + digit_value c) else None)"
| "py_digits acc (c # d # cs) =
     (if c = CHR ''_'' then
        (if is_digit d then py_digits (10 * acc + digit_value d) cs else None)
      else if is_digit c then py_digits (10 * acc + digit_value c) (d # cs)
      else None)"

definition py_nat :: "string \<Rightarrow> nat option" where
  "py_nat s =
     (case s of
        [] \<Rightarrow> None
      | c # cs \<Rightarrow> if is_digit c then py_digits (digit_value c) cs else None)"

definition py_int :: "string \<Rightarrow> int option" where
  "py_int s =
     (case strip s of
        [] \<Rightarrow> None
      | c # cs \<Rightarrow>
          if c = CHR ''-'' then map_option (\<lambda>n. - int n) (py_nat cs)
          else if c = CHR ''+'' then map_option int (py_nat cs)
          else map_option int (py_nat (c # cs)))"

text \<open>\<^verbatim>\<open>os.path.basename\<close> (POSIX): what follows the last slash.\<close>

definition basename :: "string \<Rightarrow> string" where
  "basename p = rev (takeWhile (\<lambda>c. c \<noteq> CHR ''/'') (rev p))"

subsection \<open>The server object and the command line\<close>

record server =
  port :: int
  close_delay :: int
  start_index :: int
  stop_index :: int
  test_case_dir :: string
  single_file :: "string option"
  zip_file :: "string option"

text \<open>The \<^verbatim>\<open>argparse\<close> namespace; \<open>None\<close> is a flag that was not given.\<close>

record args =
  port_arg :: int
  closedelay_arg :: int
  single_arg :: "int option"
  start_arg :: int
  stop_arg :: int
  file_arg :: "string option"
  testdir_arg :: string
  zip_arg :: "string option"

text \<open>The defaults of the parser; \<^verbatim>\<open>sys.maxsize\<close> is \<open>2^63 - 1\<close> on a 64-bit build.\<close>

definition default_args :: args where
  "default_args =
     \<lparr>port_arg = 8000, closedelay_arg = 0, single_arg = None, start_arg = 0,
      stop_arg = 9223372036854775807, file_arg = None, testdir_arg = ''testcases'',
      zip_arg = None\<rparr>"

text \<open>Lines 437 to 451 of \<^verbatim>\<open>main\<close>.\<close>

definition configure :: "args \<Rightarrow> server" where
  "configure a =
     \<lparr>port = port_arg a,
      close_delay = closedelay_arg a,
      start_index = (case single_arg a of Some n \<Rightarrow> n | None \<Rightarrow> start_arg a),
      stop_index = (case single_arg a of Some n \<Rightarrow> n | None \<Rightarrow> stop_arg a),
      test_case_dir = testdir_arg a,
      single_file = file_arg a,
      zip_file = zip_arg a\<rparr>"

text \<open>Python's truth value of an optional string: \<^verbatim>\<open>None\<close> and \<^verbatim>\<open>""\<close> are false.\<close>

fun truthy :: "string option \<Rightarrow> bool" where
  "truthy None = False"
| "truthy (Some s) = (s \<noteq> [])"

subsection \<open>Selecting test cases by name\<close>

definition in_range :: "server \<Rightarrow> int \<Rightarrow> bool" where
  "in_range s index = (start_index s \<le> index \<and> index \<le> stop_index s)"

text \<open>The loop over \<^verbatim>\<open>zip_ref.namelist()\<close>, lines 213 to 224.\<close>

fun zip_scan :: "server \<Rightarrow> string list \<Rightarrow> (int \<times> string) list" where
  "zip_scan s [] = []"
| "zip_scan s (file_name # file_list) =
     (let base_name = basename file_name in
      if base_name \<noteq> [] then
        (case py_int base_name of
           Some index \<Rightarrow>
             if in_range s index then (index, file_name) # zip_scan s file_list
             else zip_scan s file_list
         | None \<Rightarrow> zip_scan s file_list)
      else zip_scan s file_list)"

text \<open>
  A directory is the list of its children in the order the operating system gives them,
  each with what \<^verbatim>\<open>open(child, 'rb').read()\<close> returns (\<open>None\<close>: it raises, as it does on
  a subdirectory). \<^verbatim>\<open>sorted(test_case_path.iterdir())\<close> orders the children by path, which
  for children of one directory is the order of their names as strings.
\<close>

type_synonym dir_entry = "string \<times> bytes option"

fun dir_scan :: "server \<Rightarrow> dir_entry list \<Rightarrow> (int \<times> dir_entry) list" where
  "dir_scan s [] = []"
| "dir_scan s (file # files) =
     (case py_int (fst file) of
        Some index \<Rightarrow>
          if in_range s index then (index, file) # dir_scan s files else dir_scan s files
      | None \<Rightarrow> dir_scan s files)"

text \<open>Lines 213 to 226: the cases of a zip archive, after \<^verbatim>\<open>test_cases.sort()\<close>.\<close>

definition zip_test_cases :: "server \<Rightarrow> string list \<Rightarrow> (int \<times> string) list" where
  "zip_test_cases s file_list = sort (zip_scan s file_list)"

text \<open>Lines 256 to 272: the cases of a directory.\<close>

definition dir_test_cases :: "server \<Rightarrow> dir_entry list \<Rightarrow> (int \<times> dir_entry) list" where
  "dir_test_cases s entries = dir_scan s (sort_key fst entries)"

subsection \<open>The environment\<close>

text \<open>
  What \<^verbatim>\<open>zipfile.ZipFile(path, 'r')\<close> gives: an archive with its \<^verbatim>\<open>namelist()\<close> and, for
  each name, what \<^verbatim>\<open>zip_ref.open(name).read()\<close> returns (\<open>None\<close>: it raises);
  \<^verbatim>\<open>BadZipFile\<close>; or another exception, such as a file that is not there.
\<close>

datatype zip_result =
    Zip_file "string list" "string \<Rightarrow> bytes option"
  | Bad_zip_file
  | Zip_error

record env =
  bind_ok :: bool
  path_exists :: "string \<Rightarrow> bool"
  zip_open :: "string \<Rightarrow> zip_result"
  iterdir :: "string \<Rightarrow> dir_entry list option"
  read_file :: "string \<Rightarrow> bytes option"

text \<open>
  A client socket: whether \<^verbatim>\<open>recv\<close>, \<^verbatim>\<open>sendall\<close> and \<^verbatim>\<open>close\<close> raise on it.
\<close>

datatype client = Client (recv_fails: bool) (send_fails: bool) (close_fails: bool)

text \<open>
  One call of \<^verbatim>\<open>accept()\<close>: it times out, it is interrupted by SIGINT, it raises another
  exception, or it returns a client. The handler installed at line 18 turns SIGINT into
  \<^verbatim>\<open>SystemExit(0)\<close>, which no \<^verbatim>\<open>except\<close> clause of the file catches; an interrupt
  is modelled where the script waits, in \<^verbatim>\<open>accept()\<close>.
\<close>

datatype accept_result = Timeout | Interrupt | Accept_error | Connect client

text \<open>The \<^verbatim>\<open>except\<close> clause that prints an \<^verbatim>\<open>Error\<close> line.\<close>

datatype handler =
    Prepare
  | Inject_read | Inject_send | Inject_close | Inject_other
  | Single_file
  | Zip_entry string | Zip_other
  | Dir_file
  | Serve_read | Serve_send | Serve_close | Serve_other

text \<open>
  The lines printed. The usage text, the start-up banners, the progress dots and the
  lines that echo a connection and its request are left out.
\<close>

datatype message =
    Error handler
  | Warning_not_zip string
  | Warning_no_dir string
  | Reading_file "string option"
  | Found_zip string
  | Found_cases nat
  | No_valid_in_zip int int
  | No_cases_in_range int int
  | Neither_found string string
  | Injecting int nat
  | Sent_response
  | Shutting_down

text \<open>
  The trace: lines printed, the calls on sockets with their results, the delay before a
  close, the close of the listening socket by \<^verbatim>\<open>finish\<close>, and every call of
  \<^verbatim>\<open>zipfile.ZipFile\<close> with the path it is given.
\<close>

datatype event =
    Print message
  | Accepted
  | Accept_failed
  | Recv_failed
  | Sent bytes
  | Send_failed
  | Closed
  | Close_failed
  | Slept int
  | Listener_closed
  | Open_zip string

text \<open>
  How a call ends: it returns; it is still waiting in \<^verbatim>\<open>accept()\<close> when the accept
  results run out; \<^verbatim>\<open>SystemExit\<close> with a status passes through it; or another exception
  that nothing catches does.
\<close>

datatype outcome = Return | Blocked | Exit int | Crash

type_synonym result = "event list \<times> accept_result list \<times> outcome"

definition prepend :: "event list \<Rightarrow> result \<Rightarrow> result" where
  "prepend out r = (case r of (out', evs, oc) \<Rightarrow> (out @ out', evs, oc))"

text \<open>Sequencing: the second step runs only when the first returns.\<close>

definition and_then :: "result \<Rightarrow> (accept_result list \<Rightarrow> result) \<Rightarrow> result" where
  "and_then r k =
     (case r of
        (out, evs, Return) \<Rightarrow> prepend out (k evs)
      | (out, evs, oc) \<Rightarrow> (out, evs, oc))"

subsection \<open>Injection\<close>

text \<open>Lines 96 to 113: the payload is sent to an accepted client whose request was read.\<close>

definition deliver :: "server \<Rightarrow> int \<Rightarrow> bytes \<Rightarrow> client \<Rightarrow> event list" where
  "deliver s index data c =
     [Print (Injecting index (length data))]
     @ (if send_fails c then [Send_failed, Print (Error Inject_send)] else [Sent data])
     @ (if close_delay s > 0 then [Slept (close_delay s)] else [])
     @ (if close_fails c then [Close_failed, Print (Error Inject_close)] else [Closed])"

text \<open>The \<^verbatim>\<open>while True\<close> loop of \<^verbatim>\<open>inject\<close>, lines 78 to 126.\<close>

fun inject :: "server \<Rightarrow> int \<Rightarrow> bytes \<Rightarrow> accept_result list \<Rightarrow> result" where
  "inject s index data [] = ([], [], Blocked)"
| "inject s index data (Timeout # evs) = inject s index data evs"
| "inject s index data (Interrupt # evs) = ([Print Shutting_down], evs, Exit 0)"
| "inject s index data (Accept_error # evs) =
     ([Accept_failed, Print (Error Inject_other)], evs, Return)"
| "inject s index data (Connect c # evs) =
     (if recv_fails c then
        (if close_fails c then
           ([Accepted, Recv_failed, Print (Error Inject_read),
             Close_failed, Print (Error Inject_other)], evs, Return)
         else
           prepend [Accepted, Recv_failed, Print (Error Inject_read), Closed]
             (inject s index data evs))
      else (Accepted # deliver s index data c, evs, Return))"

text \<open>\<^verbatim>\<open>parse_single_file\<close>, lines 131 to 140; \<^verbatim>\<open>open(None)\<close> raises as a missing file does.\<close>

definition parse_single_file :: "server \<Rightarrow> env \<Rightarrow> accept_result list \<Rightarrow> result" where
  "parse_single_file s e evs =
     prepend [Print (Reading_file (single_file s))]
       (case Option.bind (single_file s) (read_file e) of
          None \<Rightarrow> ([Print (Error Single_file)], evs, Return)
        | Some data \<Rightarrow> inject s 0 data evs)"

text \<open>The loop over the cases of a zip archive, lines 235 to 244.\<close>

fun inject_zip_cases ::
  "server \<Rightarrow> (string \<Rightarrow> bytes option) \<Rightarrow> (int \<times> string) list \<Rightarrow> accept_result list \<Rightarrow> result"
where
  "inject_zip_cases s rd [] evs = ([], evs, Return)"
| "inject_zip_cases s rd ((index, file_path) # test_cases) evs =
     (case rd file_path of
        None \<Rightarrow>
          prepend [Print (Error (Zip_entry file_path))] (inject_zip_cases s rd test_cases evs)
      | Some data \<Rightarrow>
          (case inject s index data evs of
             (out, evs', Return) \<Rightarrow> prepend out (inject_zip_cases s rd test_cases evs')
           | (out, evs', oc) \<Rightarrow> (out, evs', oc)))"

text \<open>The loop over the cases of a directory, lines 275 to 284.\<close>

fun inject_dir_cases ::
  "server \<Rightarrow> (int \<times> dir_entry) list \<Rightarrow> accept_result list \<Rightarrow> result"
where
  "inject_dir_cases s [] evs = ([], evs, Return)"
| "inject_dir_cases s ((index, file_path) # test_cases) evs =
     (case snd file_path of
        None \<Rightarrow> prepend [Print (Error Dir_file)] (inject_dir_cases s test_cases evs)
      | Some data \<Rightarrow>
          (case inject s index data evs of
             (out, evs', Return) \<Rightarrow> prepend out (inject_dir_cases s test_cases evs')
           | (out, evs', oc) \<Rightarrow> (out, evs', oc)))"

subsection \<open>Resolution\<close>

text \<open>
  Lines 255 to 287, the directory. \<^verbatim>\<open>iterdir()\<close> on a path that exists and cannot be
  listed raises an exception that nothing catches.
\<close>

definition parse_directory :: "server \<Rightarrow> env \<Rightarrow> accept_result list \<Rightarrow> result" where
  "parse_directory s e evs =
     (if \<not> path_exists e (test_case_dir s) then
        ([Print (Warning_no_dir (test_case_dir s))], evs, Return)
      else
        (case iterdir e (test_case_dir s) of
           None \<Rightarrow> ([], evs, Crash)
         | Some entries \<Rightarrow> inject_dir_cases s (dir_test_cases s entries) evs))"

text \<open>Lines 195 to 204: the zip to use, and the line printed when it is auto-detected.\<close>

definition choose_zip :: "server \<Rightarrow> env \<Rightarrow> event list \<times> string option" where
  "choose_zip s e =
     (if truthy (zip_file s) then ([], zip_file s)
      else
        (let auto_zip_path = test_case_dir s @ ''.zip'' in
         if path_exists e auto_zip_path
         then ([Print (Found_zip auto_zip_path)], Some auto_zip_path)
         else ([], None)))"

text \<open>Lines 207 to 253: resolution from the zip \<open>zip_path\<close>.\<close>

definition parse_zip :: "server \<Rightarrow> env \<Rightarrow> string \<Rightarrow> accept_result list \<Rightarrow> result" where
  "parse_zip s e zip_path evs =
     prepend [Open_zip zip_path]
       (case zip_open e zip_path of
          Zip_file file_list rd \<Rightarrow>
            (let test_cases = zip_test_cases s file_list in
             if test_cases = [] then
               ([Print (No_valid_in_zip (start_index s) (stop_index s))], evs, Return)
             else
               prepend [Print (Found_cases (length test_cases))]
                 (inject_zip_cases s rd test_cases evs))
        | Bad_zip_file \<Rightarrow>
            prepend [Print (Warning_not_zip zip_path)] (parse_directory s e evs)
        | Zip_error \<Rightarrow>
            prepend [Print (Error Zip_other)] (parse_directory s e evs))"

text \<open>\<^verbatim>\<open>parse_test_cases\<close>, lines 189 to 287.\<close>

definition parse_test_cases :: "server \<Rightarrow> env \<Rightarrow> accept_result list \<Rightarrow> result" where
  "parse_test_cases s e evs =
     (if truthy (single_file s) then parse_single_file s e evs
      else
        (case choose_zip s e of
           (out, Some zip_path) \<Rightarrow> prepend out (parse_zip s e zip_path evs)
         | (out, None) \<Rightarrow> prepend out (parse_directory s e evs)))"

subsection \<open>Serving the default response\<close>

text \<open>The literal of line 322.\<close>

definition response :: bytes where
  "response =
     ''HTTP/1.1 200 OK'' @ [CHR 0x0D, CHR 0x0A]
     @ ''Content-Type: text/plain'' @ [CHR 0x0D, CHR 0x0A]
     @ ''Content-Length: 13'' @ [CHR 0x0D, CHR 0x0A, CHR 0x0D, CHR 0x0A]
     @ ''Hello, World!''"

text \<open>
  The loop of \<^verbatim>\<open>serve_forever\<close>, lines 303 to 341. It only ends by an interrupt; a
  client whose request cannot be read is left as it is.
\<close>

fun serve_forever :: "accept_result list \<Rightarrow> result" where
  "serve_forever [] = ([], [], Blocked)"
| "serve_forever (Timeout # evs) = serve_forever evs"
| "serve_forever (Interrupt # evs) = ([Print Shutting_down], evs, Exit 0)"
| "serve_forever (Accept_error # evs) =
     prepend [Accept_failed, Print (Error Serve_other)] (serve_forever evs)"
| "serve_forever (Connect c # evs) =
     (if recv_fails c then
        prepend [Accepted, Recv_failed, Print (Error Serve_read)] (serve_forever evs)
      else
        prepend
          ([Accepted]
           @ (if send_fails c then [Send_failed, Print (Error Serve_send)]
              else [Sent response, Print Sent_response])
           @ (if close_fails c then [Close_failed, Print (Error Serve_close)] else [Closed]))
          (serve_forever evs))"

subsection \<open>The run\<close>

text \<open>Lines 367 to 376: does the archive hold a name with an index in range?\<close>

definition zip_has_case :: "server \<Rightarrow> string list \<Rightarrow> bool" where
  "zip_has_case s file_list =
     list_ex (\<lambda>file_name.
        basename file_name \<noteq> [] \<and>
        (case py_int (basename file_name) of
           Some index \<Rightarrow> in_range s index
         | None \<Rightarrow> False)) file_list"

text \<open>Lines 383 to 390: does the directory?\<close>

definition dir_has_case :: "server \<Rightarrow> dir_entry list \<Rightarrow> bool" where
  "dir_has_case s entries =
     list_ex (\<lambda>file.
        (case py_int (fst file) of
           Some index \<Rightarrow> in_range s index
         | None \<Rightarrow> False)) entries"

text \<open>
  Lines 392 to 406 when no single file is set: with \<open>has_test_cases\<close> the cases are
  parsed and injected; then the default response is served.
\<close>

definition inject_then_serve ::
  "server \<Rightarrow> env \<Rightarrow> string \<Rightarrow> bool \<Rightarrow> bool \<Rightarrow> accept_result list \<Rightarrow> result"
where
  "inject_then_serve s e zip_path zip_exists has_test_cases evs =
     (if has_test_cases then and_then (parse_test_cases s e evs) serve_forever
      else
        prepend
          ([Print (No_cases_in_range (start_index s) (stop_index s))]
           @ (if \<not> zip_exists \<and> \<not> path_exists e (test_case_dir s)
              then [Print (Neither_found zip_path (test_case_dir s))] else []))
          (serve_forever evs))"

text \<open>
  Lines 355 to 406. With a single file \<open>has_test_cases\<close> is set, so that
  \<^verbatim>\<open>serve_forever\<close> is not entered. Otherwise a zip that exists is opened once to look
  for a case in range, and whatever opening it raises is passed over in silence.
\<close>

definition run_body :: "server \<Rightarrow> env \<Rightarrow> accept_result list \<Rightarrow> result" where
  "run_body s e evs =
     (if truthy (single_file s) then parse_single_file s e evs
      else
        (let zip_path =
               (if truthy (zip_file s) then the (zip_file s) else test_case_dir s @ ''.zip'');
             zip_exists = path_exists e zip_path;
             in_zip =
               (zip_exists \<and>
                (case zip_open e zip_path of
                   Zip_file file_list rd \<Rightarrow> zip_has_case s file_list
                 | Bad_zip_file \<Rightarrow> False
                 | Zip_error \<Rightarrow> False))
         in
           prepend (if zip_exists then [Open_zip zip_path] else [])
             (if \<not> in_zip \<and> path_exists e (test_case_dir s) then
                (case iterdir e (test_case_dir s) of
                   None \<Rightarrow> ([], evs, Crash)
                 | Some entries \<Rightarrow>
                     inject_then_serve s e zip_path zip_exists (dir_has_case s entries) evs)
              else inject_then_serve s e zip_path zip_exists in_zip evs)))"

text \<open>
  \<^verbatim>\<open>run\<close>, lines 346 to 411: \<^verbatim>\<open>prepare\<close> exits with status -1 when the port cannot be
  bound, and \<^verbatim>\<open>finish\<close> closes the listening socket however the body ends.
\<close>

definition finish :: "result \<Rightarrow> result" where
  "finish r =
     (case r of
        (out, evs, Blocked) \<Rightarrow> (out, evs, Blocked)
      | (out, evs, oc) \<Rightarrow> (out @ [Listener_closed], evs, oc))"

definition run :: "server \<Rightarrow> env \<Rightarrow> accept_result list \<Rightarrow> result" where
  "run s e evs =
     (if \<not> bind_ok e then finish ([Print (Error Prepare)], evs, Exit (- 1))
      else finish (run_body s e evs))"

text \<open>\<^verbatim>\<open>main\<close>, lines 413 to 453. \<open>Return\<close> is the end of the process with status 0.\<close>

definition main :: "args \<Rightarrow> env \<Rightarrow> accept_result list \<Rightarrow> result" where
  "main a e evs = run (configure a) e evs"

subsection \<open>Reading a trace\<close>

definition trace :: "result \<Rightarrow> event list" where
  "trace r = fst r"

definition ending :: "result \<Rightarrow> outcome" where
  "ending r = snd (snd r)"

text \<open>The indices of the injections announced, in order.\<close>

fun injected :: "event list \<Rightarrow> int list" where
  "injected [] = []"
| "injected (Print (Injecting index n) # out) = index # injected out"
| "injected (x # out) = injected out"

text \<open>
  The bytes each accepted connection was sent, one element per connection, in the order
  the connections were accepted.
\<close>

fun replies_from :: "bytes option \<Rightarrow> event list \<Rightarrow> bytes list" where
  "replies_from cur [] = (case cur of None \<Rightarrow> [] | Some b \<Rightarrow> [b])"
| "replies_from cur (Accepted # out) =
     (case cur of None \<Rightarrow> [] | Some b \<Rightarrow> [b]) @ replies_from (Some []) out"
| "replies_from cur (Sent d # out) = replies_from (map_option (\<lambda>b. b @ d) cur) out"
| "replies_from cur (x # out) = replies_from cur out"

definition replies :: "event list \<Rightarrow> bytes list" where
  "replies out = replies_from None out"

subsection \<open>Sources without the names that are not numbers\<close>

definition numeric :: "string \<Rightarrow> bool" where
  "numeric name = (py_int name \<noteq> None)"

text \<open>
  The environment in which every archive and every directory has lost the entries whose
  base name \<^verbatim>\<open>int()\<close> rejects; everything else is as before.
\<close>

definition numeric_only :: "env \<Rightarrow> env" where
  "numeric_only e =
     e\<lparr>zip_open := (\<lambda>p. case zip_open e p of
                        Zip_file file_list rd \<Rightarrow>
                          Zip_file (filter (\<lambda>n. numeric (basename n)) file_list) rd
                      | Bad_zip_file \<Rightarrow> Bad_zip_file
                      | Zip_error \<Rightarrow> Zip_error),
       iterdir := (\<lambda>p. map_option (filter (\<lambda>f. numeric (fst f))) (iterdir e p))\<rparr>"

subsection \<open>Reading a result\<close>

text \<open>The accept results a call has left for what runs after it.\<close>

definition unused :: "result \<Rightarrow> accept_result list" where
  "unused r = fst (snd r)"


fun is_error_line :: "event \<Rightarrow> bool" where
  "is_error_line (Print (Error h)) = True"
| "is_error_line x = False"



text \<open>The number of \<^verbatim>\<open>Error\<close> lines in a trace, and the clients among accept results.\<close>

definition error_lines :: "event list \<Rightarrow> nat" where
  "error_lines out = length (filter is_error_line out)"




subsection \<open>The default response, line by line\<close>

text \<open>The pieces of a byte string between the pairs CR LF.\<close>

fun crlf_lines :: "bytes \<Rightarrow> bytes list" where
  "crlf_lines [] = [] # []"
| "crlf_lines [c] = [c] # []"
| "crlf_lines (c # d # cs) =
     (if c = CHR 0x0D \<and> d = CHR 0x0A then [] # crlf_lines cs
      else (case crlf_lines (d # cs) of
              [] \<Rightarrow> [c] # []
            | l # ls \<Rightarrow> (c # l) # ls))"

subsection \<open>Example environments\<close>

text \<open>A client on which nothing raises, and a machine with a free port and no files.\<close>

definition healthy :: client where
  "healthy = Client False False False"

definition no_files :: env where
  "no_files =
     \<lparr>bind_ok = True, path_exists = (\<lambda>p. False), zip_open = (\<lambda>p. Zip_error),
      iterdir = (\<lambda>p. None), read_file = (\<lambda>p. None)\<rparr>"

text \<open>\<^verbatim>\<open>-file foo.bin\<close>, where \<^verbatim>\<open>foo.bin\<close> holds the byte \<^verbatim>\<open>X\<close>.\<close>

definition file_env :: env where
  "file_env =
     no_files\<lparr>path_exists := (\<lambda>p. p = ''foo.bin''),
              read_file := (\<lambda>p. if p = ''foo.bin'' then Some ''X'' else None)\<rparr>"

definition file_args :: args where
  "file_args = default_args\<lparr>file_arg := Some ''foo.bin''\<rparr>"

text \<open>
  A directory \<^verbatim>\<open>testcases\<close> with the files 0, 1, 2 and 10, listed in some order, and no
  zip archive.
\<close>

definition dir_env :: env where
  "dir_env =
     no_files\<lparr>path_exists := (\<lambda>p. p = ''testcases''),
              iterdir := (\<lambda>p. if p = ''testcases''
                 then Some [(''2'', Some ''C''), (''10'', Some ''K''),
                            (''0'', Some ''A''), (''1'', Some ''B'')]
                 else None)\<rparr>"

text \<open>
  A valid archive \<^verbatim>\<open>testcases.zip\<close> that holds only \<^verbatim>\<open>README\<close>, next to a directory
  \<^verbatim>\<open>testcases\<close> that holds the file 5.
\<close>

definition zip_and_dir_env :: env where
  "zip_and_dir_env =
     no_files\<lparr>path_exists := (\<lambda>p. p = ''testcases'' \<or> p = ''testcases.zip''),
              zip_open := (\<lambda>p. if p = ''testcases.zip''
                 then Zip_file [''README''] (\<lambda>n. Some ''R'') else Zip_error),
              iterdir := (\<lambda>p. if p = ''testcases'' then Some [(''5'', Some ''Z'')] else None)\<rparr>"

text \<open>
  A file \<^verbatim>\<open>testcases.zip\<close> that is not a zip archive, next to the same directory.
\<close>

definition corrupt_zip_env :: env where
  "corrupt_zip_env =
     no_files\<lparr>path_exists := (\<lambda>p. p = ''testcases'' \<or> p = ''testcases.zip''),
              zip_open := (\<lambda>p. if p = ''testcases.zip'' then Bad_zip_file else Zip_error),
              iterdir := (\<lambda>p. if p = ''testcases'' then Some [(''5'', Some ''Z'')] else None)\<rparr>"

text \<open>The same corrupt file next to a directory \<^verbatim>\<open>testcases\<close> that is empty.\<close>

definition corrupt_zip_empty_dir_env :: env where
  "corrupt_zip_empty_dir_env =
     no_files\<lparr>path_exists := (\<lambda>p. p = ''testcases'' \<or> p = ''testcases.zip''),
              zip_open := (\<lambda>p. if p = ''testcases.zip'' then Bad_zip_file else Zip_error),
              iterdir := (\<lambda>p. if p = ''testcases'' then Some [] else None)\<rparr>"


section \<open>Properties\<close>

subsection \<open>Selection by name\<close>

lemma py_int_Nil: "py_int [] = None"
  by (simp add: py_int_def strip_def)

lemma set_zip_scan:
  "set (zip_scan s names) =
     {(i, n). n \<in> set names \<and> py_int (basename n) = Some i \<and> in_range s i}"
  by (induction names) (auto simp: Let_def py_int_Nil split: option.splits)

lemma set_dir_scan:
  "set (dir_scan s entries) =
     {(i, f). f \<in> set entries \<and> py_int (fst f) = Some i \<and> in_range s i}"
  by (induction entries) (auto split: option.splits)

lemma zip_cases_set:
  "set (zip_test_cases s names) =
     {(i, n). n \<in> set names \<and> py_int (basename n) = Some i \<and>
        start_index s \<le> i \<and> i \<le> stop_index s}"
  by (simp add: zip_test_cases_def set_zip_scan in_range_def)

lemma dir_cases_set:
  "set (dir_test_cases s entries) =
     {(i, f). f \<in> set entries \<and> py_int (fst f) = Some i \<and>
        start_index s \<le> i \<and> i \<le> stop_index s}"
  by (simp add: dir_test_cases_def set_dir_scan in_range_def)

lemma fst_image_selected:
  "fst ` {(i, x). x \<in> A \<and> g x = Some i \<and> lo \<le> i \<and> i \<le> hi} =
     {i. Some i \<in> g ` A} \<inter> {lo .. hi}" for lo hi :: int
proof (rule set_eqI)
  fix i
  show "i \<in> fst ` {(i, x). x \<in> A \<and> g x = Some i \<and> lo \<le> i \<and> i \<le> hi} \<longleftrightarrow>
      i \<in> {i. Some i \<in> g ` A} \<inter> {lo .. hi}"
  proof
    assume "i \<in> fst ` {(i, x). x \<in> A \<and> g x = Some i \<and> lo \<le> i \<and> i \<le> hi}"
    then obtain x where "x \<in> A" "g x = Some i" "lo \<le> i" "i \<le> hi"
      by auto
    then show "i \<in> {i. Some i \<in> g ` A} \<inter> {lo .. hi}"
      by (simp add: image_iff) (rule bexI [of _ x], simp_all)
  next
    assume "i \<in> {i. Some i \<in> g ` A} \<inter> {lo .. hi}"
    then obtain x where x: "x \<in> A" "g x = Some i" and r: "lo \<le> i" "i \<le> hi"
      by (auto simp: image_iff)
    then have "(i, x) \<in> {(i, x). x \<in> A \<and> g x = Some i \<and> lo \<le> i \<and> i \<le> hi}"
      by simp
    then show "i \<in> fst ` {(i, x). x \<in> A \<and> g x = Some i \<and> lo \<le> i \<and> i \<le> hi}"
      by (rule rev_image_eqI) simp
  qed
qed

lemma list_ex_filter_imp:
  "(\<And>x. P x \<Longrightarrow> Q x) \<Longrightarrow> list_ex P (filter Q xs) = list_ex P xs"
  by (induction xs) auto

lemma zip_scan_filter:
  "zip_scan s (filter (\<lambda>n. numeric (basename n)) names) = zip_scan s names"
  by (induction names) (auto simp: Let_def numeric_def split: option.splits)

lemma dir_scan_filter:
  "dir_scan s (filter (\<lambda>f. numeric (fst f)) entries) = dir_scan s entries"
  by (induction entries) (auto simp: numeric_def split: option.splits)

lemma zip_has_case_filter:
  "zip_has_case s (filter (\<lambda>n. numeric (basename n)) names) = zip_has_case s names"
  unfolding zip_has_case_def
  by (rule list_ex_filter_imp) (auto simp: numeric_def split: option.splits)

lemma dir_has_case_filter:
  "dir_has_case s (filter (\<lambda>f. numeric (fst f)) entries) = dir_has_case s entries"
  unfolding dir_has_case_def
  by (rule list_ex_filter_imp) (auto simp: numeric_def split: option.splits)

lemma zip_test_cases_filter:
  "zip_test_cases s (filter (\<lambda>n. numeric (basename n)) names) = zip_test_cases s names"
  by (simp add: zip_test_cases_def zip_scan_filter)

lemma dir_test_cases_filter:
  "dir_test_cases s (filter (\<lambda>f. numeric (fst f)) entries) = dir_test_cases s entries"
  by (simp add: dir_test_cases_def dir_scan_filter flip: filter_sort)

lemma parse_single_file_numeric_only:
  "parse_single_file s (numeric_only e) evs = parse_single_file s e evs"
  by (simp add: parse_single_file_def numeric_only_def)

lemma parse_directory_numeric_only:
  "parse_directory s (numeric_only e) evs = parse_directory s e evs"
  by (simp add: parse_directory_def numeric_only_def dir_test_cases_filter split: option.splits)

lemma parse_zip_numeric_only:
  "parse_zip s (numeric_only e) zp evs = parse_zip s e zp evs"
proof -
  have "zip_open (numeric_only e) zp =
      (case zip_open e zp of
         Zip_file file_list rd \<Rightarrow>
           Zip_file (filter (\<lambda>n. numeric (basename n)) file_list) rd
       | Bad_zip_file \<Rightarrow> Bad_zip_file
       | Zip_error \<Rightarrow> Zip_error)"
    by (simp add: numeric_only_def)
  then show ?thesis
    by (cases "zip_open e zp")
       (simp_all add: parse_zip_def zip_test_cases_filter parse_directory_numeric_only)
qed

lemma choose_zip_numeric_only: "choose_zip s (numeric_only e) = choose_zip s e"
  by (simp add: choose_zip_def numeric_only_def)

lemma parse_test_cases_numeric_only:
  "parse_test_cases s (numeric_only e) evs = parse_test_cases s e evs"
  by (simp add: parse_test_cases_def parse_single_file_numeric_only choose_zip_numeric_only
      parse_zip_numeric_only parse_directory_numeric_only)

lemma inject_then_serve_numeric_only:
  "inject_then_serve s (numeric_only e) zp ze h evs = inject_then_serve s e zp ze h evs"
proof -
  have "path_exists (numeric_only e) = path_exists e"
    by (simp add: numeric_only_def)
  then show ?thesis
    by (simp add: inject_then_serve_def parse_test_cases_numeric_only)
qed

lemma run_body_numeric_only: "run_body s (numeric_only e) evs = run_body s e evs"
proof -
  have p: "path_exists (numeric_only e) = path_exists e"
    by (simp add: numeric_only_def)
  have i: "iterdir (numeric_only e) d =
      map_option (filter (\<lambda>f. numeric (fst f))) (iterdir e d)" for d
    by (simp add: numeric_only_def)
  have z: "(case zip_open (numeric_only e) zp of
         Zip_file file_list rd \<Rightarrow> zip_has_case s file_list
       | Bad_zip_file \<Rightarrow> False
       | Zip_error \<Rightarrow> False) =
      (case zip_open e zp of
         Zip_file file_list rd \<Rightarrow> zip_has_case s file_list
       | Bad_zip_file \<Rightarrow> False
       | Zip_error \<Rightarrow> False)" for zp
    by (cases "zip_open e zp") (simp_all add: numeric_only_def zip_has_case_filter)
  show ?thesis
    unfolding run_body_def p i z inject_then_serve_numeric_only parse_single_file_numeric_only
    by (cases "iterdir e (test_case_dir s)") (simp_all add: Let_def dir_has_case_filter)
qed

lemma run_numeric_only: "run s (numeric_only e) evs = run s e evs"
proof -
  have "bind_ok (numeric_only e) = bind_ok e"
    by (simp add: numeric_only_def)
  then show ?thesis
    by (simp add: run_def run_body_numeric_only)
qed

text \<open>
  Claim C3. From a zip archive or a directory whose entries have any names, exactly the
  entries whose base name \<^verbatim>\<open>int()\<close> accepts and whose index lies between \<open>start_index\<close>
  and \<open>stop_index\<close> become test cases; the indices are the parseable names that lie in
  the closed interval; and the other names are skipped in silence: a run prints and does
  the same as a run on the sources without them.
\<close>

theorem numeric_names_selected:
  "set (zip_test_cases s names) =
     {(i, n). n \<in> set names \<and> py_int (basename n) = Some i \<and>
        start_index s \<le> i \<and> i \<le> stop_index s}
   \<and> set (dir_test_cases s entries) =
     {(i, f). f \<in> set entries \<and> py_int (fst f) = Some i \<and>
        start_index s \<le> i \<and> i \<le> stop_index s}
   \<and> fst ` set (zip_test_cases s names) =
     {i. Some i \<in> (\<lambda>n. py_int (basename n)) ` set names}
       \<inter> {start_index s .. stop_index s}
   \<and> fst ` set (dir_test_cases s entries) =
     {i. Some i \<in> (\<lambda>f. py_int (fst f)) ` set entries}
       \<inter> {start_index s .. stop_index s}
   \<and> run s (numeric_only e) evs = run s e evs"
proof (intro conjI)
  show "fst ` set (zip_test_cases s names) =
     {i. Some i \<in> (\<lambda>n. py_int (basename n)) ` set names}
       \<inter> {start_index s .. stop_index s}"
    unfolding zip_cases_set by (rule fst_image_selected)
  show "fst ` set (dir_test_cases s entries) =
     {i. Some i \<in> (\<lambda>f. py_int (fst f)) ` set entries}
       \<inter> {start_index s .. stop_index s}"
    unfolding dir_cases_set by (rule fst_image_selected)
qed (rule zip_cases_set dir_cases_set run_numeric_only)+

subsection \<open>The command line\<close>

text \<open>
  Claim C5. For every integer \<open>n\<close> and whatever the other flags are, \<^verbatim>\<open>-single n\<close>
  configures the server, and so makes it run, exactly as \<^verbatim>\<open>-start n -stop n\<close> does; and
  with \<^verbatim>\<open>-single\<close> the values of \<^verbatim>\<open>-start\<close> and \<^verbatim>\<open>-stop\<close> have no effect.
\<close>

theorem single_is_start_stop:
  "configure (a\<lparr>single_arg := Some n\<rparr>) =
     configure (a\<lparr>single_arg := None, start_arg := n, stop_arg := n\<rparr>)
   \<and> configure (a\<lparr>single_arg := Some n, start_arg := x, stop_arg := y\<rparr>) =
     configure (a\<lparr>single_arg := Some n\<rparr>)
   \<and> main (a\<lparr>single_arg := Some n\<rparr>) e evs =
     main (a\<lparr>single_arg := None, start_arg := n, stop_arg := n\<rparr>) e evs
   \<and> main (a\<lparr>single_arg := Some n, start_arg := x, stop_arg := y\<rparr>) e evs =
     main (a\<lparr>single_arg := Some n\<rparr>) e evs"
  by (simp add: main_def configure_def)

subsection \<open>Traces and results\<close>

lemma trace_prepend [simp]: "trace (prepend out r) = out @ trace r"
  by (cases r) (simp add: trace_def prepend_def)

lemma ending_prepend [simp]: "ending (prepend out r) = ending r"
  by (cases r) (simp add: ending_def prepend_def)

lemma trace_tuple [simp]: "trace (out, evs, oc) = out"
  by (simp add: trace_def)

lemma ending_tuple [simp]: "ending (out, evs, oc) = oc"
  by (simp add: ending_def)

lemma unused_prepend [simp]: "unused (prepend out r) = unused r"
  by (cases r) (simp add: unused_def prepend_def)

lemma unused_tuple [simp]: "unused (out, evs, oc) = evs"
  by (simp add: unused_def)

lemma injected_append [simp]: "injected (a @ b) = injected a @ injected b"
  by (induction a rule: injected.induct) auto

lemma unused_finish [simp]: "unused (finish r) = unused r"
  by (cases r; cases "ending r") (auto simp: finish_def unused_def ending_def split: outcome.splits)

lemma ending_finish [simp]: "ending (finish r) = ending r"
  by (cases r) (auto simp: finish_def ending_def split: outcome.splits)

lemma trace_finish:
  "trace (finish r) = (if ending r = Blocked then trace r else trace r @ [Listener_closed])"
  by (cases r) (auto simp: finish_def ending_def trace_def split: outcome.splits)

lemma replies_from_listener_closed [simp]:
  "replies_from cur (out @ [Listener_closed]) = replies_from cur out"
  by (induction cur out rule: replies_from.induct) auto

lemma trace_and_then:
  "trace (and_then r k) =
     (if ending r = Return then trace r @ trace (k (unused r)) else trace r)"
  by (cases r; cases "ending r")
     (auto simp: and_then_def ending_def unused_def trace_def prepend_def split: prod.splits)



lemma and_then_prepend: "and_then (prepend out r) k = prepend out (and_then r k)"
  by (cases r; cases "ending r")
     (auto simp: and_then_def prepend_def ending_def split: prod.splits)

lemma run_bound: "bind_ok e \<Longrightarrow> run s e evs = finish (run_body s e evs)"
  by (simp add: run_def)

lemma prepend_prepend: "prepend a (prepend b r) = prepend (a @ b) r"
  by (cases r) (simp add: prepend_def)

lemma error_lines_append [simp]: "error_lines (a @ b) = error_lines a + error_lines b"
  by (simp add: error_lines_def)

subsection \<open>The default response\<close>

lemma sent_serve_forever:
  "Sent b \<in> set (trace (serve_forever evs)) \<Longrightarrow> b = response"
  by (induction evs rule: serve_forever.induct) (auto split: if_splits)

lemma replies_from_serve_forever:
  "replies_from (Some b) (trace (serve_forever evs)) =
     b # replies_from None (trace (serve_forever evs))"
  by (induction evs rule: serve_forever.induct) auto

lemma crlf_lines_response:
  "crlf_lines response =
     [''HTTP/1.1 200 OK'', ''Content-Type: text/plain'', ''Content-Length: 13'', [],
      ''Hello, World!'']"
  by (simp add: response_def)

text \<open>
  Claim C7. The default response is the status line \<^verbatim>\<open>HTTP/1.1 200 OK\<close>, the headers
  \<^verbatim>\<open>Content-Type: text/plain\<close> and \<^verbatim>\<open>Content-Length: 13\<close>, an empty line and the body
  \<^verbatim>\<open>Hello, World!\<close> of 13 bytes with nothing after it, 78 bytes in all; whatever
  \<^verbatim>\<open>serve_forever\<close> sends is these bytes, and a client whose request is read and whose
  \<^verbatim>\<open>sendall\<close> does not raise is sent them.
\<close>

theorem default_response_literal:
  "crlf_lines response =
     [''HTTP/1.1 200 OK'', ''Content-Type: text/plain'', ''Content-Length: 13'', [],
      ''Hello, World!'']
   \<and> length (last (crlf_lines response)) = 13
   \<and> length response = 78
   \<and> (\<forall>b. Sent b \<in> set (trace (serve_forever evs)) \<longrightarrow> b = response)
   \<and> (\<not> recv_fails c \<and> \<not> send_fails c \<longrightarrow>
        replies (trace (serve_forever (Connect c # evs))) =
          response # replies (trace (serve_forever evs)))"
proof (intro conjI allI impI)
  show "length (last (crlf_lines response)) = 13"
    by (simp add: crlf_lines_response)
  show "length response = 78"
    by (simp add: response_def)
  show "replies (trace (serve_forever (Connect c # evs))) =
      response # replies (trace (serve_forever evs))"
    if "\<not> recv_fails c \<and> \<not> send_fails c"
    using that by (simp add: replies_def replies_from_serve_forever)
qed (simp_all add: crlf_lines_response sent_serve_forever)

text \<open>The theorem at one and two healthy clients.\<close>

theorem default_response_literal_witness:
  "Sent response \<in> set (trace (serve_forever [Connect healthy]))
   \<and> replies (trace (serve_forever [Connect healthy, Connect healthy])) =
       [response, response]"
  using default_response_literal [of "[Connect healthy]" healthy]
    default_response_literal [of "[]" healthy]
  by (simp add: healthy_def replies_def)

subsection \<open>One injection\<close>

lemma replies_from_inject:
  "replies_from (Some b) (trace (inject s i data evs)) =
     b # replies_from None (trace (inject s i data evs))"
  by (induction s i data evs rule: inject.induct) (auto simp: deliver_def)

lemma inject_timeouts: "inject s i data (replicate k Timeout @ evs) = inject s i data evs"
  by (induction k) auto

lemma inject_served:
  "\<not> recv_fails c \<Longrightarrow> \<not> send_fails c \<Longrightarrow>
   replies (trace (inject s i data (Connect c # evs))) = [data]
   \<and> injected (trace (inject s i data (Connect c # evs))) = [i]
   \<and> ending (inject s i data (Connect c # evs)) = Return
   \<and> unused (inject s i data (Connect c # evs)) = evs"
  by (simp add: replies_def deliver_def)

text \<open>
  Claim C10, as the code has it. Within one injection the failures differ. When reading
  the request of an accepted client raises, \<^verbatim>\<open>inject\<close> closes that client. If the close
  succeeds it goes on waiting with the same test case: that client is sent nothing and
  the run continues as an injection of the same payload on the accept results that
  follow, so that a later healthy client is sent it. If the close raises too, \<^verbatim>\<open>inject\<close>
  prints a second error line and returns: the test case is used up and nobody was sent
  it. When \<^verbatim>\<open>accept\<close> itself raises an error that is not a timeout, \<^verbatim>\<open>inject\<close> returns
  and nothing is sent: the functions that go through the test cases go on with the
  cases that remain.
\<close>

theorem read_failure_retries_accept_failure_skips:
  "(recv_fails c \<and> \<not> close_fails c \<longrightarrow>
      inject s i data (Connect c # evs) =
        prepend [Accepted, Recv_failed, Print (Error Inject_read), Closed] (inject s i data evs)
      \<and> replies (trace (inject s i data (Connect c # evs))) =
          [] # replies (trace (inject s i data evs))
      \<and> injected (trace (inject s i data (Connect c # evs))) =
          injected (trace (inject s i data evs))
      \<and> ending (inject s i data (Connect c # evs)) = ending (inject s i data evs))
   \<and> (recv_fails c \<and> \<not> close_fails c \<and> \<not> recv_fails c' \<and> \<not> send_fails c' \<longrightarrow>
      replies (trace (inject s i data (Connect c # Connect c' # evs))) = [] # [data]
      \<and> injected (trace (inject s i data (Connect c # Connect c' # evs))) = [i]
      \<and> ending (inject s i data (Connect c # Connect c' # evs)) = Return)
   \<and> (recv_fails c \<and> close_fails c \<longrightarrow>
      inject s i data (Connect c # evs) =
        ([Accepted, Recv_failed, Print (Error Inject_read),
          Close_failed, Print (Error Inject_other)], evs, Return)
      \<and> replies (trace (inject s i data (Connect c # evs))) = [] # []
      \<and> injected (trace (inject s i data (Connect c # evs))) = [])
   \<and> inject s i data (Accept_error # evs) =
        ([Accept_failed, Print (Error Inject_other)], evs, Return)
   \<and> replies (trace (inject s i data (Accept_error # evs))) = []
   \<and> (rd n = Some data \<longrightarrow>
        inject_zip_cases s rd ((i, n) # rest) (Accept_error # evs) =
          prepend [Accept_failed, Print (Error Inject_other)] (inject_zip_cases s rd rest evs))
   \<and> inject_dir_cases s ((i, (n, Some data)) # rest') (Accept_error # evs) =
        prepend [Accept_failed, Print (Error Inject_other)] (inject_dir_cases s rest' evs)"
proof (intro conjI impI)
  assume a: "recv_fails c \<and> \<not> close_fails c"
  then show "inject s i data (Connect c # evs) =
      prepend [Accepted, Recv_failed, Print (Error Inject_read), Closed] (inject s i data evs)"
    by simp
  from a show "replies (trace (inject s i data (Connect c # evs))) =
      [] # replies (trace (inject s i data evs))"
    by (simp add: replies_def replies_from_inject)
  from a show "injected (trace (inject s i data (Connect c # evs))) =
      injected (trace (inject s i data evs))"
    by simp
  from a show "ending (inject s i data (Connect c # evs)) = ending (inject s i data evs)"
    by simp
next
  assume a: "recv_fails c \<and> \<not> close_fails c \<and> \<not> recv_fails c' \<and> \<not> send_fails c'"
  then have h: "\<not> recv_fails c'" "\<not> send_fails c'"
    by simp_all
  from a show "replies (trace (inject s i data (Connect c # Connect c' # evs))) = [] # [data]"
    using inject_served [OF h, of s i data evs]
    by (simp add: replies_def replies_from_inject del: inject.simps(5))
       (simp add: replies_def replies_from_inject)
  from a show "injected (trace (inject s i data (Connect c # Connect c' # evs))) = [i]"
    by (simp add: deliver_def)
  from a show "ending (inject s i data (Connect c # Connect c' # evs)) = Return"
    by simp
next
  assume a: "recv_fails c \<and> close_fails c"
  then show "inject s i data (Connect c # evs) =
      ([Accepted, Recv_failed, Print (Error Inject_read),
        Close_failed, Print (Error Inject_other)], evs, Return)"
    by simp
  from a show "replies (trace (inject s i data (Connect c # evs))) = [] # []"
    by (simp add: replies_def)
  from a show "injected (trace (inject s i data (Connect c # evs))) = []"
    by simp
next
  show "replies (trace (inject s i data (Accept_error # evs))) = []"
    by (simp add: replies_def)
qed (simp_all add: prepend_def)

text \<open>
  The theorem at a client whose \<^verbatim>\<open>recv\<close> raises followed by a healthy one, at a client
  whose \<^verbatim>\<open>recv\<close> and \<^verbatim>\<open>close\<close> both raise, and at an archive with the cases 7 and 8
  when the first \<^verbatim>\<open>accept\<close> raises.
\<close>

theorem read_failure_retries_accept_failure_skips_witness:
  "replies (trace (inject (configure default_args) 7 ''P''
      [Connect (Client True False False), Connect healthy])) = [] # [''P'']
   \<and> inject (configure default_args) 7 ''P'' [Connect (Client True False True), Connect healthy]
       = ([Accepted, Recv_failed, Print (Error Inject_read),
           Close_failed, Print (Error Inject_other)], [Connect healthy], Return)
   \<and> injected (trace (inject_zip_cases (configure default_args) Some
      [(7, ''7''), (8, ''8'')] [Accept_error, Connect healthy])) = [8]"
  using read_failure_retries_accept_failure_skips
    [where c = "Client True False False" and c' = healthy and s = "configure default_args"
       and i = 7 and data = "''P''" and evs = "[]"]
    read_failure_retries_accept_failure_skips
    [where c = "Client True False True" and s = "configure default_args"
       and i = 7 and data = "''P''" and evs = "[Connect healthy]"]
    read_failure_retries_accept_failure_skips
    [where rd = Some and n = "''7''" and s = "configure default_args"
       and i = 7 and data = "''7''" and evs = "[Connect healthy]" and rest = "[(8, ''8'')]"]
  by (simp add: healthy_def deliver_def)

text \<open>
  Claim C10 as it is stated fails: an archive holds the cases 7 and 8, each with its
  name as payload; reading the request of the first client raises and so does closing
  it. Case 7 is used up, the second client is sent case 8, and nobody is sent case 7.
\<close>

theorem read_and_close_failure_uses_up_case:
  "injected (trace (inject_zip_cases (configure default_args) Some
      [(7, ''7''), (8, ''8'')] [Connect (Client True False True), Connect healthy])) = [8]
   \<and> replies (trace (inject_zip_cases (configure default_args) Some
      [(7, ''7''), (8, ''8'')] [Connect (Client True False True), Connect healthy]))
     = [] # [''8'']
   \<and> ending (inject_zip_cases (configure default_args) Some
      [(7, ''7''), (8, ''8'')] [Connect (Client True False True), Connect healthy]) = Return"
  by code_simp

subsection \<open>A single file\<close>

text \<open>
  Claim C4, as the code has it. With \<^verbatim>\<open>-file\<close> on a readable file that holds the bytes
  \<open>X\<close>, the first client accepted, after any number of timeouts, whose request is read
  and whose \<^verbatim>\<open>sendall\<close> does not raise is sent exactly \<open>X\<close> as test case 0; then the run
  returns: the listening socket is closed, and the accept results that follow are never
  used, so that no later client is sent anything.
\<close>

theorem single_file_sent_once:
  "truthy (single_file s) \<and> Option.bind (single_file s) (read_file e) = Some X
     \<and> bind_ok e \<and> \<not> recv_fails c \<and> \<not> send_fails c \<longrightarrow>
   replies (trace (run s e (replicate k Timeout @ Connect c # evs))) = [X]
   \<and> injected (trace (run s e (replicate k Timeout @ Connect c # evs))) = [0]
   \<and> ending (run s e (replicate k Timeout @ Connect c # evs)) = Return
   \<and> unused (run s e (replicate k Timeout @ Connect c # evs)) = evs
   \<and> last (trace (run s e (replicate k Timeout @ Connect c # evs))) = Listener_closed"
proof
  assume a: "truthy (single_file s) \<and> Option.bind (single_file s) (read_file e) = Some X
     \<and> bind_ok e \<and> \<not> recv_fails c \<and> \<not> send_fails c"
  then have h: "\<not> recv_fails c" "\<not> send_fails c"
    by simp_all
  define r where "r = inject s 0 X (Connect c # evs)"
  have r: "replies (trace r) = [X]" "injected (trace r) = [0]" "ending r = Return"
    "unused r = evs"
    using inject_served [OF h, of s 0 X evs] by (simp_all add: r_def)
  have run: "run s e (replicate k Timeout @ Connect c # evs) =
      finish (prepend [Print (Reading_file (single_file s))] r)"
    using a by (simp add: run_def run_body_def parse_single_file_def inject_timeouts r_def)
  show "replies (trace (run s e (replicate k Timeout @ Connect c # evs))) = [X]
   \<and> injected (trace (run s e (replicate k Timeout @ Connect c # evs))) = [0]
   \<and> ending (run s e (replicate k Timeout @ Connect c # evs)) = Return
   \<and> unused (run s e (replicate k Timeout @ Connect c # evs)) = evs
   \<and> last (trace (run s e (replicate k Timeout @ Connect c # evs))) = Listener_closed"
    unfolding run using r by (simp add: trace_finish replies_def)
qed

text \<open>The theorem at \<^verbatim>\<open>-file foo.bin\<close>, two timeouts and two healthy clients.\<close>

theorem single_file_sent_once_witness:
  "replies (trace (run (configure file_args) file_env
      (replicate 2 Timeout @ Connect healthy # [Connect healthy]))) = [''X'']
   \<and> unused (run (configure file_args) file_env
      (replicate 2 Timeout @ Connect healthy # [Connect healthy])) = [Connect healthy]"
  using single_file_sent_once [of "configure file_args" file_env "''X''" healthy 2
      "[Connect healthy]"]
  by (simp add: file_args_def file_env_def no_files_def configure_def default_args_def
      healthy_def)

text \<open>
  Claim C4 as the specification states it fails: with \<^verbatim>\<open>-file foo.bin\<close> and two healthy
  clients, the first is sent \<^verbatim>\<open>X\<close>, the process ends, and the second is neither accepted
  nor sent the default response.
\<close>

theorem single_file_no_default_response:
  "replies (trace (main file_args file_env [Connect healthy, Connect healthy])) = [''X'']
   \<and> replies (trace (main file_args file_env [Connect healthy, Connect healthy]))
       \<noteq> [''X'', response]
   \<and> ending (main file_args file_env [Connect healthy, Connect healthy]) = Return
   \<and> unused (main file_args file_env [Connect healthy, Connect healthy]) = [Connect healthy]"
  by code_simp

subsection \<open>A corrupt zip archive\<close>

lemma parse_test_cases_corrupt_zip:
  assumes "\<not> truthy (single_file s)"
    and "truthy (zip_file s) \<and> zip_file s = Some zp
         \<or> \<not> truthy (zip_file s) \<and> zp = test_case_dir s @ ''.zip'' \<and> path_exists e zp"
    and "zip_open e zp = Bad_zip_file"
  shows "parse_test_cases s e evs =
     prepend
       ((if truthy (zip_file s) then [] else [Print (Found_zip zp)])
        @ [Open_zip zp, Print (Warning_not_zip zp)])
       (parse_directory s e evs)"
proof -
  have cz: "choose_zip s e =
      ((if truthy (zip_file s) then [] else [Print (Found_zip zp)]), Some zp)"
    using assms(2) by (auto simp: choose_zip_def Let_def)
  have "parse_zip s e zp evs =
      prepend [Open_zip zp, Print (Warning_not_zip zp)] (parse_directory s e evs)"
    using assms(3) by (cases "parse_directory s e evs") (simp add: parse_zip_def prepend_def)
  then show ?thesis
    using assms(1)
    by (cases "parse_directory s e evs") (simp add: parse_test_cases_def cz prepend_def)
qed

lemma run_body_corrupt_zip:
  assumes "\<not> truthy (single_file s)"
    and zp: "zp = (if truthy (zip_file s) then the (zip_file s) else test_case_dir s @ ''.zip'')"
    and "path_exists e zp" and "zip_open e zp = Bad_zip_file"
  shows "run_body s e evs =
     prepend [Open_zip zp]
       (if path_exists e (test_case_dir s) then
          (case iterdir e (test_case_dir s) of
             None \<Rightarrow> ([], evs, Crash)
           | Some entries \<Rightarrow> inject_then_serve s e zp True (dir_has_case s entries) evs)
        else inject_then_serve s e zp True False evs)"
  using assms(1,3,4) unfolding run_body_def Let_def zp [symmetric]
  by (simp cong: option.case_cong)

lemma no_open_zip_inject: "Open_zip z \<notin> set (trace (inject s i data evs))"
  by (induction s i data evs rule: inject.induct) (auto simp: deliver_def)

lemma no_open_zip_serve_forever: "Open_zip z \<notin> set (trace (serve_forever evs))"
  by (induction evs rule: serve_forever.induct) auto

lemma no_open_zip_inject_dir_cases:
  "Open_zip z \<notin> set (trace (inject_dir_cases s tcs evs))"
proof (induction tcs arbitrary: evs)
  case Nil
  then show ?case by simp
next
  case (Cons tc tcs)
  obtain index file_path where tc: "tc = (index, file_path)"
    by (cases tc)
  show ?case
  proof (cases "snd file_path")
    case None
    then show ?thesis using Cons tc by simp
  next
    case (Some data)
    have "inject_dir_cases s (tc # tcs) evs =
        and_then (inject s index data evs) (inject_dir_cases s tcs)"
      using Some tc by (simp add: and_then_def)
    then show ?thesis
      using Cons no_open_zip_inject [of z s index data evs] by (simp add: trace_and_then)
  qed
qed

lemma no_warning_serve_forever:
  "Print (Warning_not_zip z) \<notin> set (trace (serve_forever evs))"
  by (induction evs rule: serve_forever.induct) auto

text \<open>
  Claim C6, as the code has it. Let the zip that is chosen, the one given with \<^verbatim>\<open>-zip\<close>
  or else \<^verbatim>\<open>testcases.zip\<close> beside the directory, exist and not be a valid archive, with
  no \<^verbatim>\<open>-file\<close> and a port that can be bound. \<^verbatim>\<open>run\<close> opens the zip once and passes over
  the failure in silence. When the directory exists and holds an entry in range,
  \<^verbatim>\<open>parse_test_cases\<close> opens the zip a second time, prints the warning, and the cases of
  the directory are injected and the default response served; from the warning on the
  zip is not opened again. When the directory does not exist or holds no entry in
  range, no warning is printed at all: the run prints that no test cases were found
  and serves the default response.
\<close>

theorem corrupt_zip_falls_back_to_directory:
  "\<not> truthy (single_file s) \<and> bind_ok e
   \<and> zp = (if truthy (zip_file s) then the (zip_file s) else test_case_dir s @ ''.zip'')
   \<and> path_exists e zp \<and> zip_open e zp = Bad_zip_file \<longrightarrow>
   (path_exists e (test_case_dir s) \<and> iterdir e (test_case_dir s) = Some entries
      \<and> dir_has_case s entries \<longrightarrow>
      run s e evs =
        finish
          (prepend
             ([Open_zip zp]
              @ (if truthy (zip_file s) then [] else [Print (Found_zip zp)])
              @ [Open_zip zp, Print (Warning_not_zip zp)])
             (and_then (inject_dir_cases s (dir_test_cases s entries) evs) serve_forever))
      \<and> (\<forall>z. Open_zip z \<notin> set (trace
            (and_then (inject_dir_cases s (dir_test_cases s entries) evs) serve_forever))))
   \<and> (\<not> path_exists e (test_case_dir s)
       \<or> iterdir e (test_case_dir s) = Some entries \<and> \<not> dir_has_case s entries \<longrightarrow>
      run s e evs =
        finish
          (prepend
             [Open_zip zp, Print (No_cases_in_range (start_index s) (stop_index s))]
             (serve_forever evs))
      \<and> (\<forall>z. Print (Warning_not_zip z) \<notin> set (trace (run s e evs))))"
proof (intro impI conjI allI)
  assume a: "\<not> truthy (single_file s) \<and> bind_ok e
   \<and> zp = (if truthy (zip_file s) then the (zip_file s) else test_case_dir s @ ''.zip'')
   \<and> path_exists e zp \<and> zip_open e zp = Bad_zip_file"
  assume d: "path_exists e (test_case_dir s) \<and> iterdir e (test_case_dir s) = Some entries
      \<and> dir_has_case s entries"
  have chosen: "truthy (zip_file s) \<and> zip_file s = Some zp
      \<or> \<not> truthy (zip_file s) \<and> zp = test_case_dir s @ ''.zip'' \<and> path_exists e zp"
    using a by (cases "zip_file s") auto
  have nf: "\<not> truthy (single_file s)" and bz: "zip_open e zp = Bad_zip_file"
    using a by auto
  have pd: "parse_directory s e evs = inject_dir_cases s (dir_test_cases s entries) evs"
    using d by (simp add: parse_directory_def)
  have p: "parse_test_cases s e evs =
      prepend
        ((if truthy (zip_file s) then [] else [Print (Found_zip zp)])
         @ [Open_zip zp, Print (Warning_not_zip zp)])
        (inject_dir_cases s (dir_test_cases s entries) evs)"
    using parse_test_cases_corrupt_zip [OF nf chosen bz, of evs] by (simp only: pd)
  have zp: "zp = (if truthy (zip_file s) then the (zip_file s) else test_case_dir s @ ''.zip'')"
    and ex: "path_exists e zp"
    using a by auto
  have "run_body s e evs =
      prepend [Open_zip zp] (and_then (parse_test_cases s e evs) serve_forever)"
    unfolding run_body_corrupt_zip [OF nf zp ex bz] using d
    by (simp add: inject_then_serve_def)
  also have "\<dots> =
      prepend
        ([Open_zip zp]
         @ (if truthy (zip_file s) then [] else [Print (Found_zip zp)])
         @ [Open_zip zp, Print (Warning_not_zip zp)])
        (and_then (inject_dir_cases s (dir_test_cases s entries) evs) serve_forever)"
    unfolding p and_then_prepend by (simp only: prepend_prepend append_assoc)
  finally have rb: "run_body s e evs =
      prepend
        ([Open_zip zp]
         @ (if truthy (zip_file s) then [] else [Print (Found_zip zp)])
         @ [Open_zip zp, Print (Warning_not_zip zp)])
        (and_then (inject_dir_cases s (dir_test_cases s entries) evs) serve_forever)" .
  have b: "bind_ok e"
    using a by blast
  show "run s e evs =
        finish
          (prepend
             ([Open_zip zp]
              @ (if truthy (zip_file s) then [] else [Print (Found_zip zp)])
              @ [Open_zip zp, Print (Warning_not_zip zp)])
             (and_then (inject_dir_cases s (dir_test_cases s entries) evs) serve_forever))"
    by (simp only: run_bound [OF b] rb)
next
  fix z
  show "Open_zip z \<notin> set (trace
      (and_then (inject_dir_cases s (dir_test_cases s entries) evs) serve_forever))"
    by (simp add: trace_and_then no_open_zip_inject_dir_cases no_open_zip_serve_forever)
next
  assume a: "\<not> truthy (single_file s) \<and> bind_ok e
   \<and> zp = (if truthy (zip_file s) then the (zip_file s) else test_case_dir s @ ''.zip'')
   \<and> path_exists e zp \<and> zip_open e zp = Bad_zip_file"
  assume d: "\<not> path_exists e (test_case_dir s)
       \<or> iterdir e (test_case_dir s) = Some entries \<and> \<not> dir_has_case s entries"
  have nf: "\<not> truthy (single_file s)" and bz: "zip_open e zp = Bad_zip_file"
    and zp: "zp = (if truthy (zip_file s) then the (zip_file s) else test_case_dir s @ ''.zip'')"
    and ex: "path_exists e zp"
    using a by auto
  have rb: "run_body s e evs =
      prepend [Open_zip zp, Print (No_cases_in_range (start_index s) (stop_index s))]
        (serve_forever evs)"
    unfolding run_body_corrupt_zip [OF nf zp ex bz] using d ex
    by (cases "serve_forever evs") (auto simp: inject_then_serve_def prepend_def)
  have b: "bind_ok e"
    using a by blast
  show r: "run s e evs =
        finish
          (prepend
             [Open_zip zp, Print (No_cases_in_range (start_index s) (stop_index s))]
             (serve_forever evs))"
    by (simp only: run_bound [OF b] rb)
  fix z
  show "Print (Warning_not_zip z) \<notin> set (trace (run s e evs))"
    unfolding r by (simp add: trace_finish no_warning_serve_forever)
qed

text \<open>
  The theorem at a corrupt \<^verbatim>\<open>testcases.zip\<close> next to a directory with the file 5, and
  next to an empty directory, with one healthy client.
\<close>

theorem corrupt_zip_falls_back_to_directory_witness:
  "main default_args corrupt_zip_env [Connect healthy] =
     ([Open_zip ''testcases.zip'', Print (Found_zip ''testcases.zip''),
       Open_zip ''testcases.zip'', Print (Warning_not_zip ''testcases.zip''),
       Accepted, Print (Injecting 5 1), Sent ''Z'', Closed], [], Blocked)
   \<and> Print (Warning_not_zip ''testcases.zip'') \<notin>
       set (trace (run (configure default_args) corrupt_zip_empty_dir_env [Connect healthy]))"
proof -
  have h: "\<not> truthy (single_file (configure default_args)) \<and> bind_ok corrupt_zip_env
      \<and> ''testcases.zip'' =
          (if truthy (zip_file (configure default_args))
           then the (zip_file (configure default_args))
           else test_case_dir (configure default_args) @ ''.zip'')
      \<and> path_exists corrupt_zip_env ''testcases.zip''
      \<and> zip_open corrupt_zip_env ''testcases.zip'' = Bad_zip_file"
    by (simp add: configure_def default_args_def corrupt_zip_env_def no_files_def)
  have d: "path_exists corrupt_zip_env (test_case_dir (configure default_args))
      \<and> iterdir corrupt_zip_env (test_case_dir (configure default_args))
          = Some [(''5'', Some ''Z'')]
      \<and> dir_has_case (configure default_args) [(''5'', Some ''Z'')]"
    by code_simp
  have h': "\<not> truthy (single_file (configure default_args))
      \<and> bind_ok corrupt_zip_empty_dir_env
      \<and> ''testcases.zip'' =
          (if truthy (zip_file (configure default_args))
           then the (zip_file (configure default_args))
           else test_case_dir (configure default_args) @ ''.zip'')
      \<and> path_exists corrupt_zip_empty_dir_env ''testcases.zip''
      \<and> zip_open corrupt_zip_empty_dir_env ''testcases.zip'' = Bad_zip_file"
    by (simp add: configure_def default_args_def corrupt_zip_empty_dir_env_def no_files_def)
  have d': "\<not> path_exists corrupt_zip_empty_dir_env (test_case_dir (configure default_args))
      \<or> iterdir corrupt_zip_empty_dir_env (test_case_dir (configure default_args)) = Some []
        \<and> \<not> dir_has_case (configure default_args) []"
    by code_simp
  have t: "finish
          (prepend
             ([Open_zip ''testcases.zip'']
              @ (if truthy (zip_file (configure default_args)) then []
                 else [Print (Found_zip ''testcases.zip'')])
              @ [Open_zip ''testcases.zip'', Print (Warning_not_zip ''testcases.zip'')])
             (and_then
                (inject_dir_cases (configure default_args)
                   (dir_test_cases (configure default_args) [(''5'', Some ''Z'')])
                   [Connect healthy])
                serve_forever)) =
     ([Open_zip ''testcases.zip'', Print (Found_zip ''testcases.zip''),
       Open_zip ''testcases.zip'', Print (Warning_not_zip ''testcases.zip''),
       Accepted, Print (Injecting 5 1), Sent ''Z'', Closed], [], Blocked)"
    by code_simp
  have r: "run (configure default_args) corrupt_zip_env [Connect healthy] =
        finish
          (prepend
             ([Open_zip ''testcases.zip'']
              @ (if truthy (zip_file (configure default_args)) then []
                 else [Print (Found_zip ''testcases.zip'')])
              @ [Open_zip ''testcases.zip'', Print (Warning_not_zip ''testcases.zip'')])
             (and_then
                (inject_dir_cases (configure default_args)
                   (dir_test_cases (configure default_args) [(''5'', Some ''Z'')])
                   [Connect healthy])
                serve_forever))"
    by (rule conjunct1 [OF mp [OF conjunct1 [OF mp [OF corrupt_zip_falls_back_to_directory h]] d]])
  have w: "\<forall>z. Print (Warning_not_zip z) \<notin>
       set (trace (run (configure default_args) corrupt_zip_empty_dir_env [Connect healthy]))"
    by (rule conjunct2 [OF mp [OF conjunct2 [OF mp [OF corrupt_zip_falls_back_to_directory h']] d']])
  show ?thesis
    unfolding main_def by (intro conjI) (rule trans [OF r t], rule spec [OF w])
qed

text \<open>
  Claim C6 as it is stated fails: with a corrupt \<^verbatim>\<open>testcases.zip\<close> next to an empty
  directory the zip is opened once, no warning is printed, and the client is sent the
  default response.
\<close>

theorem corrupt_zip_without_cases_no_warning:
  "main default_args corrupt_zip_empty_dir_env [Connect healthy] =
     ([Open_zip ''testcases.zip'', Print (No_cases_in_range 0 9223372036854775807),
       Accepted, Sent response, Print Sent_response, Closed], [], Blocked)
   \<and> Print (Warning_not_zip ''testcases.zip'') \<notin>
       set (trace (main default_args corrupt_zip_empty_dir_env [Connect healthy]))"
  by code_simp

subsection \<open>Names that \<^verbatim>\<open>int()\<close> accepts\<close>

text \<open>
  Claim C9. An entry of a zip archive or of a directory is a test case whenever
  \<^verbatim>\<open>int()\<close> accepts its base name and the value lies in the range, with that value as
  its index: a sign, white space around the digits and underscores between digits are
  accepted (\<^verbatim>\<open>-3\<close>, \<^verbatim>\<open> 7 \<close>, \<^verbatim>\<open>1_0\<close>, \<^verbatim>\<open>+3\<close>), and with a negative \<open>start_index\<close> an
  entry with a negative index is selected.
\<close>

theorem int_syntax_accepted:
  "py_int ''-3'' = Some (- 3) \<and> py_int '' 7 '' = Some 7 \<and> py_int ''1_0'' = Some 10
   \<and> py_int ''+3'' = Some 3
   \<and> (n \<in> set names \<and> py_int (basename n) = Some i \<and> start_index s \<le> i \<and> i \<le> stop_index s
        \<longrightarrow> (i, n) \<in> set (zip_test_cases s names))
   \<and> (f \<in> set entries \<and> py_int (fst f) = Some i \<and> start_index s \<le> i \<and> i \<le> stop_index s
        \<longrightarrow> (i, f) \<in> set (dir_test_cases s entries))
   \<and> zip_test_cases (configure (default_args\<lparr>start_arg := - 5\<rparr>))
        [''1_0'', ''notes.txt'', ''a/-3'', '' 7 ''] =
        [(- 3, ''a/-3''), (7, '' 7 ''), (10, ''1_0'')]"
proof (intro conjI impI)
  show "py_int ''-3'' = Some (- 3)" by code_simp
  show "py_int '' 7 '' = Some 7" by code_simp
  show "py_int ''1_0'' = Some 10" by code_simp
  show "py_int ''+3'' = Some 3" by code_simp
  show "zip_test_cases (configure (default_args\<lparr>start_arg := - 5\<rparr>))
        [''1_0'', ''notes.txt'', ''a/-3'', '' 7 ''] =
        [(- 3, ''a/-3''), (7, '' 7 ''), (10, ''1_0'')]"
    by code_simp
qed (simp_all add: zip_cases_set dir_cases_set)

text \<open>The theorem at the name \<^verbatim>\<open>a/-3\<close> of an archive and the file \<^verbatim>\<open>-3\<close>, with \<^verbatim>\<open>-start -5\<close>.\<close>

theorem int_syntax_accepted_witness:
  "(- 3, ''a/-3'') \<in> set (zip_test_cases (configure (default_args\<lparr>start_arg := - 5\<rparr>))
       [''a/-3'', ''notes.txt''])
   \<and> (- 3, (''-3'', Some ''N'')) \<in>
       set (dir_test_cases (configure (default_args\<lparr>start_arg := - 5\<rparr>))
         [(''x'', None), (''-3'', Some ''N'')])"
proof -
  have h1: "py_int (basename ''a/-3'') = Some (- 3)"
    by code_simp
  have h2: "py_int ''-3'' = Some (- 3)"
    by code_simp
  show ?thesis
    using int_syntax_accepted
      [where n = "''a/-3''" and names = "[''a/-3'', ''notes.txt'']" and i = "- 3"
         and s = "configure (default_args\<lparr>start_arg := - 5\<rparr>)"
         and f = "(''-3'', Some ''N'')" and entries = "[(''x'', None), (''-3'', Some ''N'')]"]
      h1 h2
    by (simp add: configure_def default_args_def)
qed

subsection \<open>Faults on connections\<close>































subsection \<open>Order and precedence\<close>

lemma sorted_map_fst:
  "sorted xs \<Longrightarrow> sorted (map fst xs)" for xs :: "(int \<times> string) list"
  by (induction xs) (auto simp: less_eq_prod_def)

text \<open>The cases of a zip archive are in ascending order of index.\<close>

lemma zip_test_cases_sorted: "sorted (map fst (zip_test_cases s names))"
  by (simp add: zip_test_cases_def sorted_map_fst)

text \<open>
  Claim C2 at a directory with the files 0, 1, 2 and 10: the directory is sorted by
  name, not by index, and four healthy clients are sent the cases 0, 1, 10, 2 in that
  order.
\<close>

theorem directory_injected_in_name_order:
  "injected (trace (main default_args dir_env (replicate 4 (Connect healthy))))
     = [0, 1, 10, 2]
   \<and> replies (trace (main default_args dir_env (replicate 4 (Connect healthy))))
     = [''A'', ''B'', ''K'', ''C'']"
  by code_simp

text \<open>
  Claim C1 at a valid \<^verbatim>\<open>testcases.zip\<close> without a case in range next to a directory
  with the file 5: \<^verbatim>\<open>run\<close> finds the case of the directory, but \<^verbatim>\<open>parse_test_cases\<close>
  opens the archive again and returns once it has given nothing, so that nothing is
  injected and the client is sent the default response.
\<close>

theorem zip_without_cases_hides_directory:
  "main default_args zip_and_dir_env [Connect healthy] =
     ([Open_zip ''testcases.zip'', Print (Found_zip ''testcases.zip''),
       Open_zip ''testcases.zip'', Print (No_valid_in_zip 0 9223372036854775807),
       Accepted, Sent response, Print Sent_response, Closed], [], Blocked)
   \<and> injected (trace (main default_args zip_and_dir_env [Connect healthy])) = []
   \<and> dir_has_case (configure default_args) [(''5'', Some ''Z'')]"
  by code_simp

end
